theory Spec2Isabelle
  imports Complex_Main "HOL-Library.Sublist"
begin

section \<open>Python primitives used by the application\<close>

text \<open>
  The application is a single Python module. Its integers are unbounded (\<open>int\<close>), its
  strings are modelled as \<open>string\<close> (code points below 256), and every exception the
  modelled code can raise is a value of \<open>py_error\<close>.
\<close>

datatype py_error =
    ValueError
  | IndexError
  | TypeError
  | NameError
  | OSError
  | ZeroDivisionError
  | GradioError string

subsection \<open>Decimal rendering: \<open>str(n)\<close> and \<open>"%02d" % n\<close>\<close>

definition digit_char :: "nat \<Rightarrow> char" where
  "digit_char d = char_of (48 + d)"

fun str_nat :: "nat \<Rightarrow> string" where
  "str_nat n = (if n < 10 then [digit_char n] else str_nat (n div 10) @ [digit_char (n mod 10)])"

declare str_nat.simps [simp del]

definition str_int :: "int \<Rightarrow> string" where
  "str_int i = (if i < 0 then CHR ''-'' # str_nat (nat (- i)) else str_nat (nat i))"

text \<open>\<open>"%02d" % i\<close>: at least two characters, padded with a zero on the left.\<close>

definition fmt02d :: "int \<Rightarrow> string" where
  "fmt02d i = (let s = str_int i in if length s < 2 then CHR ''0'' # s else s)"

section \<open>Segment timing: \<open>s2t\<close> and \<open>calc_time\<close>\<close>

text \<open>
  \<open>s2t(seconds, seconds2)\<close> renders a window as \<open>mm:ss - mm:ss\<close>; \<open>divmod\<close> is floor
  division, as \<open>div\<close> and \<open>mod\<close> on \<open>int\<close> are. The start's seconds are bumped by one
  when the window does not start at zero and is not collapsed.
\<close>

definition s2t :: "int \<Rightarrow> int \<Rightarrow> string" where
  "s2t seconds seconds2 =
     (let m = seconds div 60; s = seconds mod 60;
          m2 = seconds2 div 60; s2 = seconds2 mod 60;
          s = (if seconds \<noteq> 0 \<and> seconds < seconds2 then s + 1 else s)
      in fmt02d m @ '':'' @ fmt02d s @ '' - '' @ fmt02d m2 @ '':'' @ fmt02d s2)"

definition max_limit_of :: "string \<Rightarrow> int" where
  "max_limit_of gen_type =
     (if gen_type = ''music'' then 30 else if gen_type = ''audio'' then 10 else 0)"

text \<open>
  \<open>tracks\<close>: the length each slot adds to the clock. Slot 0 has the full capacity plus
  \<open>d0 - 1\<close> strides, every other slot \<open>d\<^sub>i\<close> strides of \<open>max_limit - overlap\<close>.
\<close>

definition calc_tracks :: "string \<Rightarrow> int \<Rightarrow> int list \<Rightarrow> int list" where
  "calc_tracks gen_type overlap d_amount =
     (let max_limit = max_limit_of gen_type;
          track_add = max_limit - overlap
      in (max_limit + (d_amount ! 0 - 1) * track_add)
         # map (\<lambda>i. d_amount ! i * track_add) [1..<10])"

text \<open>The state of both loops of \<open>calc_time\<close> is the list \<open>calc\<close> and the clock \<open>time\<close>.\<close>

definition calc_first :: "int \<Rightarrow> int \<Rightarrow> int list \<Rightarrow> string list \<times> int" where
  "calc_first s max_time tracks =
     (if tracks ! 0 \<ge> max_time \<or> s = 0
      then ([s2t 0 max_time], max_time)
      else ([s2t 0 (tracks ! 0)], tracks ! 0))"

definition calc_step :: "int \<Rightarrow> int \<Rightarrow> int list \<Rightarrow> nat \<Rightarrow> string list \<times> int \<Rightarrow> string list \<times> int" where
  "calc_step s max_time tracks i st =
     (let calc = fst st; time = snd st in
      if time + tracks ! i \<ge> max_time \<or> int i = s
      then (calc @ [s2t time max_time], max_time)
      else (calc @ [s2t time (time + tracks ! i)], time + tracks ! i))"

fun calc_loop :: "int \<Rightarrow> int \<Rightarrow> int list \<Rightarrow> nat list \<Rightarrow> string list \<times> int \<Rightarrow> string list \<times> int" where
  "calc_loop s max_time tracks [] st = st"
| "calc_loop s max_time tracks (i # is) st =
     calc_loop s max_time tracks is (calc_step s max_time tracks i st)"

text \<open>
  \<open>calc_state \<dots> k\<close> is the state after slot \<open>k\<close> has been reported; \<open>calc_time\<close> returns
  the ten strings collected after slot 9. The parameter \<open>s\<close> is the number of prompts;
  the code works with \<open>s - 1\<close>.
\<close>

definition calc_state ::
  "string \<Rightarrow> int \<Rightarrow> int \<Rightarrow> int \<Rightarrow> int list \<Rightarrow> nat \<Rightarrow> string list \<times> int" where
  "calc_state gen_type s duration overlap d_amount k =
     (let s = s - 1;
          max_time = duration;
          tracks = calc_tracks gen_type overlap d_amount
      in calc_loop s max_time tracks [1..<Suc k] (calc_first s max_time tracks))"

definition calc_time ::
  "string \<Rightarrow> int \<Rightarrow> int \<Rightarrow> int \<Rightarrow> int \<Rightarrow> int \<Rightarrow> int \<Rightarrow> int \<Rightarrow> int \<Rightarrow> int \<Rightarrow> int \<Rightarrow> int \<Rightarrow> int \<Rightarrow> int
     \<Rightarrow> string list" where
  "calc_time gen_type s duration overlap d0 d1 d2 d3 d4 d5 d6 d7 d8 d9 =
     fst (calc_state gen_type s duration overlap [d0, d1, d2, d3, d4, d5, d6, d7, d8, d9] 9)"

text \<open>The clock after slot \<open>k\<close>.\<close>

definition calc_clock ::
  "string \<Rightarrow> int \<Rightarrow> int \<Rightarrow> int \<Rightarrow> int list \<Rightarrow> nat \<Rightarrow> int" where
  "calc_clock gen_type s duration overlap d_amount k =
     snd (calc_state gen_type s duration overlap d_amount k)"

subsection \<open>Properties of the slot loop\<close>

lemma calc_step_length: "length (fst (calc_step s m tr i st)) = Suc (length (fst st))"
  by (simp add: calc_step_def Let_def)

lemma calc_loop_length: "length (fst (calc_loop s m tr is st)) = length (fst st) + length is"
  by (induction "is" arbitrary: st) (simp_all add: calc_step_length)

lemma calc_step_prefix: "j < length (fst st) \<Longrightarrow> fst (calc_step s m tr i st) ! j = fst st ! j"
  by (simp add: calc_step_def Let_def nth_append)

lemma calc_loop_prefix: "j < length (fst st) \<Longrightarrow> fst (calc_loop s m tr is st) ! j = fst st ! j"
proof (induction "is" arbitrary: st)
  case Nil
  then show ?case by simp
next
  case (Cons i "is")
  have "j < length (fst (calc_step s m tr i st))"
    using Cons.prems by (simp add: calc_step_length)
  then show ?case
    using Cons.IH [of "calc_step s m tr i st"] Cons.prems by (simp add: calc_step_prefix)
qed

lemma calc_loop_append:
  "calc_loop s m tr (is @ js) st = calc_loop s m tr js (calc_loop s m tr is st)"
  by (induction "is" arbitrary: st) simp_all

lemma calc_step_clock_le: "snd st \<le> m \<Longrightarrow> snd (calc_step s m tr i st) \<le> m"
  by (simp add: calc_step_def Let_def)

lemma calc_loop_clock_le: "snd st \<le> m \<Longrightarrow> snd (calc_loop s m tr is st) \<le> m"
  by (induction "is" arbitrary: st) (simp_all add: calc_step_clock_le)

lemma calc_step_at_limit:
  "snd st = m \<Longrightarrow> 0 \<le> tr ! i \<Longrightarrow> calc_step s m tr i st = (fst st @ [s2t m m], m)"
  by (simp add: calc_step_def Let_def)

lemma calc_loop_at_limit:
  "snd st = m \<Longrightarrow> \<forall>i \<in> set is. 0 \<le> tr ! i \<Longrightarrow>
   calc_loop s m tr is st = (fst st @ replicate (length is) (s2t m m), m)"
proof (induction "is" arbitrary: st)
  case Nil
  then show ?case by (cases st) simp
next
  case (Cons i "is")
  have step: "calc_step s m tr i st = (fst st @ [s2t m m], m)"
    using Cons.prems by (simp add: calc_step_at_limit)
  show ?case
    using Cons.IH [of "(fst st @ [s2t m m], m)"] Cons.prems step
    by (simp add: replicate_append_same)
qed

lemma calc_step_hit: "int i = s \<Longrightarrow> snd (calc_step s m tr i st) = m"
  by (simp add: calc_step_def Let_def)

lemma s2t_suffix: "suffix (fmt02d (b div 60) @ '':'' @ fmt02d (b mod 60)) (s2t a b)"
  unfolding s2t_def Let_def suffix_def by (metis append.assoc)


lemma calc_tracks_nth:
  "1 \<le> i \<Longrightarrow> i < 10 \<Longrightarrow>
   calc_tracks gen_type overlap ds ! i = ds ! i * (max_limit_of gen_type - overlap)"
proof -
  assume i: "1 \<le> i" "i < 10"
  then obtain j where j: "i = Suc j" "j < 9" by (cases i) auto
  have "map (\<lambda>i. ds ! i * (max_limit_of gen_type - overlap)) [1..<10] ! j
        = ds ! ([1..<10] ! j) * (max_limit_of gen_type - overlap)"
    using j by (intro nth_map) simp
  also have "[1..<10] ! j = Suc j" using j nth_upt [of 1 j 10] by simp
  finally show ?thesis using j by (simp add: calc_tracks_def Let_def)
qed

lemma calc_tracks_nonneg:
  assumes "overlap \<le> max_limit_of gen_type" and "\<forall>d \<in> set ds. 1 \<le> d" and "length ds = 10"
    and "1 \<le> i" and "i < 10"
  shows "0 \<le> calc_tracks gen_type overlap ds ! i"
proof -
  have "ds ! i \<in> set ds" using assms by simp
  then have "0 \<le> ds ! i" using assms(2) by force
  moreover have "0 \<le> max_limit_of gen_type - overlap" using assms(1) by simp
  ultimately show ?thesis using assms by (simp add: calc_tracks_nth)
qed

lemma calc_state_0:
  "calc_state gen_type s duration overlap ds 0
   = calc_first (s - 1) duration (calc_tracks gen_type overlap ds)"
  by (simp add: calc_state_def Let_def)

lemma calc_state_extend:
  assumes "k \<le> j"
  shows "calc_state gen_type s duration overlap ds j
         = calc_loop (s - 1) duration (calc_tracks gen_type overlap ds) [Suc k..<Suc j]
             (calc_state gen_type s duration overlap ds k)"
proof -
  have "[1..<Suc j] = [1..<Suc k] @ [Suc k..<Suc j]"
    using assms upt_add_eq_append [of 1 "Suc k" "j - k"] by simp
  then show ?thesis by (simp add: calc_state_def Let_def calc_loop_append)
qed

lemma calc_state_Suc:
  "calc_state gen_type s duration overlap ds (Suc k)
   = calc_step (s - 1) duration (calc_tracks gen_type overlap ds) (Suc k)
       (calc_state gen_type s duration overlap ds k)"
  using calc_state_extend [of k "Suc k" gen_type s duration overlap ds] by simp

lemma calc_first_length: "length (fst (calc_first s m tr)) = 1"
  by (simp add: calc_first_def)

lemma calc_first_clock_le: "snd (calc_first s m tr) \<le> m"
  by (simp add: calc_first_def)

lemma calc_state_length:
  "length (fst (calc_state gen_type s duration overlap ds k)) = Suc k"
  by (simp add: calc_state_def Let_def calc_loop_length calc_first_length)

lemma calc_clock_le: "calc_clock gen_type s duration overlap ds k \<le> duration"
  by (simp add: calc_clock_def calc_state_def Let_def calc_loop_clock_le calc_first_clock_le)

lemma calc_clock_hit:
  assumes "int k = s - 1"
  shows "calc_clock gen_type s duration overlap ds k = duration"
proof (cases k)
  case 0
  then show ?thesis using assms by (simp add: calc_clock_def calc_state_0 calc_first_def)
next
  case (Suc j)
  then show ?thesis using assms by (simp add: calc_clock_def calc_state_Suc calc_step_hit)
qed

lemma calc_state_collapsed:
  assumes clock: "calc_clock gen_type s duration overlap ds k = duration"
    and kj: "k \<le> j" and j: "j < 10"
    and tr: "\<forall>i. 1 \<le> i \<and> i < 10 \<longrightarrow> 0 \<le> calc_tracks gen_type overlap ds ! i"
  shows "calc_state gen_type s duration overlap ds j
         = (fst (calc_state gen_type s duration overlap ds k)
              @ replicate (j - k) (s2t duration duration), duration)"
proof -
  have "\<forall>i \<in> set [Suc k..<Suc j]. 0 \<le> calc_tracks gen_type overlap ds ! i"
    using tr j by auto
  moreover have "snd (calc_state gen_type s duration overlap ds k) = duration"
    using clock by (simp add: calc_clock_def)
  ultimately have "calc_loop (s - 1) duration (calc_tracks gen_type overlap ds) [Suc k..<Suc j]
             (calc_state gen_type s duration overlap ds k)
        = (fst (calc_state gen_type s duration overlap ds k)
             @ replicate (length [Suc k..<Suc j]) (s2t duration duration), duration)"
    by (rule calc_loop_at_limit [rotated])
  moreover have "length [Suc k..<Suc j] = j - k" by (simp only: length_upt diff_Suc_Suc)
  ultimately show ?thesis
    using calc_state_extend [OF kj, of gen_type s duration overlap ds] by metis
qed

lemma calc_slot_collapsed:
  assumes clock: "calc_clock gen_type s duration overlap ds k = duration"
    and ki: "k < i" and i: "i < 10"
    and tr: "\<forall>i. 1 \<le> i \<and> i < 10 \<longrightarrow> 0 \<le> calc_tracks gen_type overlap ds ! i"
  shows "fst (calc_state gen_type s duration overlap ds 9) ! i = s2t duration duration"
proof -
  have "fst (calc_state gen_type s duration overlap ds 9)
        = fst (calc_state gen_type s duration overlap ds k)
            @ replicate (9 - k) (s2t duration duration)"
    using calc_state_collapsed [OF clock _ _ tr, of 9] ki i by simp
  moreover have "length (fst (calc_state gen_type s duration overlap ds k)) = Suc k"
    by (rule calc_state_length)
  ultimately show ?thesis using ki i by (simp add: nth_append)
qed

text \<open>
  C1. For every generator string, every duration, every overlap no larger than the
  capacity, every prompt count \<open>s\<close> from 1 to 10 and all repeat counts \<open>d0 \<dots> d9\<close> of at
  least 1, \<open>calc_time\<close> returns ten strings, the tenth is \<open>s2t t duration\<close> for a clock
  value \<open>t \<le> duration\<close> and so ends with the rendering \<open>mm:ss\<close> of \<open>duration\<close>; and once
  the clock has reached \<open>duration\<close> after slot \<open>k\<close>, or \<open>k\<close> is the index \<open>s - 1\<close> of the
  last prompt, every later slot reports the collapsed window \<open>s2t duration duration\<close>.
\<close>

theorem calc_time_last_window_ends_at_duration:
  assumes ov: "overlap \<le> max_limit_of gen_type"
    and s: "1 \<le> s" "s \<le> 10"
    and ds: "\<forall>d \<in> set [d0, d1, d2, d3, d4, d5, d6, d7, d8, d9]. 1 \<le> d"
  shows "length (calc_time gen_type s duration overlap d0 d1 d2 d3 d4 d5 d6 d7 d8 d9) = 10
    \<and> (\<exists>t. t \<le> duration
          \<and> calc_time gen_type s duration overlap d0 d1 d2 d3 d4 d5 d6 d7 d8 d9 ! 9 = s2t t duration)
    \<and> suffix (fmt02d (duration div 60) @ '':'' @ fmt02d (duration mod 60))
          (calc_time gen_type s duration overlap d0 d1 d2 d3 d4 d5 d6 d7 d8 d9 ! 9)
    \<and> (\<forall>k i. k < i \<and> i < 10
          \<and> (calc_clock gen_type s duration overlap [d0, d1, d2, d3, d4, d5, d6, d7, d8, d9] k = duration
               \<or> int k = s - 1)
          \<longrightarrow> calc_time gen_type s duration overlap d0 d1 d2 d3 d4 d5 d6 d7 d8 d9 ! i
               = s2t duration duration)"
proof -
  let ?ds = "[d0, d1, d2, d3, d4, d5, d6, d7, d8, d9]"
  let ?st = "calc_state gen_type s duration overlap ?ds"
  let ?ck = "calc_clock gen_type s duration overlap ?ds"
  let ?ct = "calc_time gen_type s duration overlap d0 d1 d2 d3 d4 d5 d6 d7 d8 d9"
  have ct: "?ct = fst (?st 9)" by (simp add: calc_time_def)
  have tr: "\<forall>i. 1 \<le> i \<and> i < 10 \<longrightarrow> 0 \<le> calc_tracks gen_type overlap ?ds ! i"
    using calc_tracks_nonneg [OF ov ds] by simp
  have len: "length ?ct = 10" by (simp add: ct calc_state_length)
  have collapsed: "?ct ! i = s2t duration duration"
    if "k < i" "i < 10" "?ck k = duration \<or> int k = s - 1" for k i
  proof -
    have "?ck k = duration" using that(3) calc_clock_hit by blast
    then show ?thesis using calc_slot_collapsed [OF _ that(1,2) tr] by (simp add: ct)
  qed
  have last: "\<exists>t. t \<le> duration \<and> ?ct ! 9 = s2t t duration"
  proof (cases "s = 10")
    case True
    let ?t = "?ck 8"
    have "?st 9 = calc_step (s - 1) duration (calc_tracks gen_type overlap ?ds) 9 (?st 8)"
      using calc_state_Suc [of gen_type s duration overlap ?ds 8] by simp
    then have "fst (?st 9) = fst (?st 8) @ [s2t ?t duration]"
      using True by (simp add: calc_step_def Let_def calc_clock_def)
    moreover have "length (fst (?st 8)) = 9" by (simp add: calc_state_length)
    ultimately have "?ct ! 9 = s2t ?t duration" by (simp add: ct nth_append)
    moreover have "?t \<le> duration" by (rule calc_clock_le)
    ultimately show ?thesis by blast
  next
    case False
    then have "nat (s - 1) < 9" "int (nat (s - 1)) = s - 1" using s by auto
    then have "?ct ! 9 = s2t duration duration"
      using collapsed [of "nat (s - 1)" 9] by simp
    then show ?thesis by auto
  qed
  then obtain t where t: "?ct ! 9 = s2t t duration" by blast
  have suf: "suffix (fmt02d (duration div 60) @ '':'' @ fmt02d (duration mod 60)) (?ct ! 9)"
    unfolding t by (rule s2t_suffix)
  show ?thesis using len last suf collapsed by blast
qed

theorem calc_time_last_window_witness:
  "(12::int) \<le> max_limit_of ''music''
   \<and> length (calc_time ''music'' 3 100 12 2 1 1 1 1 1 1 1 1 1) = 10
   \<and> suffix ''01:40'' (calc_time ''music'' 3 100 12 2 1 1 1 1 1 1 1 1 1 ! 9)
   \<and> calc_time ''music'' 3 100 12 2 1 1 1 1 1 1 1 1 1 ! 5 = ''01:40 - 01:40''"
proof -
  have ov: "(12::int) \<le> max_limit_of ''music''" by (simp add: max_limit_of_def)
  have ds: "\<forall>d \<in> set [2, 1, 1, 1, 1, 1, 1, 1, 1, 1::int]. 1 \<le> d" by simp
  have s: "(1::int) \<le> 3" "(3::int) \<le> 10" by simp_all
  note th = calc_time_last_window_ends_at_duration [OF ov s ds, of 100]
  have f: "fmt02d (100 div 60) @ '':'' @ fmt02d (100 mod 60) = ''01:40''" by code_simp
  have g: "s2t 100 100 = ''01:40 - 01:40''" by code_simp
  have k: "(2::nat) < 5 \<and> (5::nat) < 10
      \<and> (calc_clock ''music'' 3 100 12 [2, 1, 1, 1, 1, 1, 1, 1, 1, 1] 2 = 100 \<or> int 2 = 3 - 1)"
    by simp
  have "calc_time ''music'' 3 100 12 2 1 1 1 1 1 1 1 1 1 ! 5 = s2t 100 100"
    using th k by blast
  then show ?thesis using th ov f g by simp
qed

subsection \<open>The scenario: audio, duration 10, overlap 2, repeats 3, 1, \<dots>, 1\<close>

lemma calc_time_scenario_eq:
  "calc_time ''audio'' s 10 2 3 1 1 1 1 1 1 1 1 1
   = ''00:00 - 00:10'' # replicate 9 ''00:10 - 00:10''"
proof -
  let ?ds = "[3, 1, 1, 1, 1, 1, 1, 1, 1, 1::int]"
  have ov: "(2::int) \<le> max_limit_of ''audio''" by (simp add: max_limit_of_def)
  have tr: "\<forall>i. 1 \<le> i \<and> i < 10 \<longrightarrow> 0 \<le> calc_tracks ''audio'' 2 ?ds ! i"
    using calc_tracks_nonneg [OF ov, of ?ds] by simp
  have t0: "calc_tracks ''audio'' 2 ?ds ! 0 = 26"
    by (simp add: calc_tracks_def max_limit_of_def)
  have st0: "calc_state ''audio'' s 10 2 ?ds 0 = ([s2t 0 10], 10)"
    by (simp add: calc_state_0 calc_first_def t0)
  then have "calc_clock ''audio'' s 10 2 ?ds 0 = 10" by (simp add: calc_clock_def)
  then have "calc_state ''audio'' s 10 2 ?ds 9 = ([s2t 0 10] @ replicate (9 - 0) (s2t 10 10), 10)"
    using calc_state_collapsed [of "''audio''" s 10 2 ?ds 0 9] tr st0 by simp
  moreover have "s2t 0 10 = ''00:00 - 00:10''" by code_simp
  moreover have "s2t 10 10 = ''00:10 - 00:10''" by code_simp
  ultimately show ?thesis by (simp add: calc_time_def)
qed

text \<open>
  C8 (as amended). For the audio generator, duration 10, overlap 2 and repeat counts
  \<open>3, 1, 1, 1, 1, 1, 1, 1, 1, 1\<close>, whatever the prompt count, slot 0 already covers the
  whole track (its length is \<open>10 + 2 * 8 = 26\<close>): the ten reported windows are
  \<open>00:00 - 00:10\<close> once and \<open>00:10 - 00:10\<close> nine times, so exactly 2 distinct windows,
  and the tenth is the collapsed window at 10.
\<close>

theorem calc_time_scenario_two_windows:
  "calc_time ''audio'' s 10 2 3 1 1 1 1 1 1 1 1 1
     = ''00:00 - 00:10'' # replicate 9 ''00:10 - 00:10''
   \<and> card (set (calc_time ''audio'' s 10 2 3 1 1 1 1 1 1 1 1 1)) = 2
   \<and> calc_time ''audio'' s 10 2 3 1 1 1 1 1 1 1 1 1 ! 9 = s2t 10 10"
proof -
  have g: "s2t 10 10 = ''00:10 - 00:10''" by code_simp
  have "set (''00:00 - 00:10'' # replicate 9 ''00:10 - 00:10'')
        = {''00:00 - 00:10'', ''00:10 - 00:10''}" by simp
  then have "card (set (''00:00 - 00:10'' # replicate 9 ''00:10 - 00:10'')) = 2" by simp
  then show ?thesis using g by (simp add: calc_time_scenario_eq)
qed

text \<open>
  C8 as stated asks for exactly 4 distinct windows. With four prompts the ten windows
  hold 2 distinct strings, not 4.
\<close>

theorem calc_time_scenario_counterexample:
  "card (set (calc_time ''audio'' 4 10 2 3 1 1 1 1 1 1 1 1 1)) \<noteq> 4"
proof -
  have "calc_time ''audio'' 4 10 2 3 1 1 1 1 1 1 1 1 1
        = ''00:00 - 00:10'' # replicate 9 ''00:10 - 00:10''"
    by (rule calc_time_scenario_eq)
  moreover have "set (''00:00 - 00:10'' # replicate 9 ''00:10 - 00:10'')
        = {''00:00 - 00:10'', ''00:10 - 00:10''}" by simp
  ultimately show ?thesis by simp
qed

section \<open>The expiring file registry: \<open>FileCleaner\<close>\<close>

text \<open>
  The object has the fields \<open>file_lifetime\<close> and \<open>files\<close>, a list of pairs of a timestamp
  and a path, oldest first. The state also carries what the registry touches outside
  itself: \<open>disk\<close>, the set of paths that exist, and \<open>unlinked\<close>, the trace of the
  \<open>path.unlink()\<close> calls made so far. Timestamps are the readings of \<open>time.time()\<close>,
  taken as real numbers.
\<close>

record fc_state =
  file_lifetime :: real
  files :: "(real \<times> string) list"
  disk :: "string set"
  unlinked :: "string list"

definition expired :: "real \<Rightarrow> real \<Rightarrow> real \<times> string \<Rightarrow> bool" where
  "expired now lifetime e = (now - fst e > lifetime)"

text \<open>
  \<open>_cleanup\<close> iterates over a copy of \<open>files\<close> (the second argument) and pops the front of
  the list itself for every expired entry; it stops at the first entry that has not
  expired. \<open>pop(0)\<close> on an empty list would raise \<open>IndexError\<close>.
\<close>

fun cleanup_loop :: "real \<Rightarrow> (real \<times> string) list \<Rightarrow> fc_state \<Rightarrow> py_error + fc_state" where
  "cleanup_loop now [] st = Inr st"
| "cleanup_loop now ((time_added, path) # rest) st =
     (if now - time_added > file_lifetime st then
        (let st1 = (if path \<in> disk st
                    then st\<lparr>disk := disk st - {path}, unlinked := unlinked st @ [path]\<rparr>
                    else st)
         in case files st1 of
              [] \<Rightarrow> Inl IndexError
            | _ # popped \<Rightarrow> cleanup_loop now rest (st1\<lparr>files := popped\<rparr>))
      else Inr st)"

definition cleanup :: "real \<Rightarrow> fc_state \<Rightarrow> py_error + fc_state" where
  "cleanup now st = cleanup_loop now (files st) st"

text \<open>
  \<open>add\<close> reads the clock twice: \<open>now\<close> inside \<open>_cleanup\<close>, then \<open>stamp\<close> for the new entry.
\<close>

definition add :: "real \<Rightarrow> real \<Rightarrow> string \<Rightarrow> fc_state \<Rightarrow> py_error + fc_state" where
  "add now stamp path st =
     (case cleanup now st of
        Inl e \<Rightarrow> Inl e
      | Inr st' \<Rightarrow> Inr (st'\<lparr>files := files st' @ [(stamp, path)]\<rparr>))"

definition fc_init :: "real \<Rightarrow> string set \<Rightarrow> fc_state" where
  "fc_init lifetime d = \<lparr>file_lifetime = lifetime, files = [], disk = d, unlinked = []\<rparr>"

text \<open>
  A run of the registry: calls of \<open>add\<close>, interleaved with the rest of the program creating
  and removing files (the pipeline removes its own temporary files after copying them).
\<close>

datatype fc_event = Add real real string | Create string | Remove string

fun fc_step :: "fc_event \<Rightarrow> fc_state \<Rightarrow> py_error + fc_state" where
  "fc_step (Add now stamp path) st = add now stamp path st"
| "fc_step (Create path) st = Inr (st\<lparr>disk := insert path (disk st)\<rparr>)"
| "fc_step (Remove path) st = Inr (st\<lparr>disk := disk st - {path}\<rparr>)"

fun fc_run :: "fc_event list \<Rightarrow> fc_state \<Rightarrow> py_error + fc_state" where
  "fc_run [] st = Inr st"
| "fc_run (ev # evs) st = (case fc_step ev st of Inl e \<Rightarrow> Inl e | Inr st' \<Rightarrow> fc_run evs st')"

text \<open>The clock does not run backwards: the readings of a run, in order, never decrease.\<close>

fun clock_ok :: "real \<Rightarrow> fc_event list \<Rightarrow> bool" where
  "clock_ok t [] = True"
| "clock_ok t (Add now stamp path # evs) = (t \<le> now \<and> now \<le> stamp \<and> clock_ok stamp evs)"
| "clock_ok t (Create path # evs) = clock_ok t evs"
| "clock_ok t (Remove path # evs) = clock_ok t evs"

text \<open>The entries a run registers, in order.\<close>

fun registered :: "fc_event list \<Rightarrow> (real \<times> string) list" where
  "registered [] = []"
| "registered (Add now stamp path # evs) = (stamp, path) # registered evs"
| "registered (Create path # evs) = registered evs"
| "registered (Remove path # evs) = registered evs"

text \<open>The last clock reading of a run that started at reading \<open>t\<close>.\<close>

fun last_clock :: "real \<Rightarrow> fc_event list \<Rightarrow> real" where
  "last_clock t [] = t"
| "last_clock t (Add now stamp path # evs) = last_clock stamp evs"
| "last_clock t (Create path # evs) = last_clock t evs"
| "last_clock t (Remove path # evs) = last_clock t evs"

subsection \<open>What one sweep does\<close>

lemma cleanup_loop_result:
  "files st = snap \<Longrightarrow>
   \<exists>st' new. cleanup_loop now snap st = Inr st'
     \<and> file_lifetime st' = file_lifetime st
     \<and> files st' = dropWhile (expired now (file_lifetime st)) snap
     \<and> disk st' = disk st - snd ` set (takeWhile (expired now (file_lifetime st)) snap)
     \<and> unlinked st' = unlinked st @ new
     \<and> subseq new (map snd (takeWhile (expired now (file_lifetime st)) snap))"
proof (induction snap arbitrary: st)
  case Nil
  then show ?case by simp
next
  case (Cons e rest)
  obtain time_added path where e: "e = (time_added, path)" by (cases e)
  show ?case
  proof (cases "now - time_added > file_lifetime st")
    case False
    then show ?thesis using e Cons.prems by (simp add: expired_def)
  next
    case True
    define st1 where "st1 = (if path \<in> disk st
                    then st\<lparr>disk := disk st - {path}, unlinked := unlinked st @ [path]\<rparr>
                    else st)"
    define st2 where "st2 = st1\<lparr>files := rest\<rparr>"
    have f1: "files st1 = e # rest" using Cons.prems by (simp add: st1_def)
    have step: "cleanup_loop now (e # rest) st = cleanup_loop now rest st2"
      using True f1 e by (simp add: st1_def st2_def Let_def)
    have l2: "file_lifetime st2 = file_lifetime st" by (simp add: st2_def st1_def)
    have d2: "disk st2 = disk st - {path}" by (simp add: st2_def st1_def)
    have "files st2 = rest" by (simp add: st2_def)
    from Cons.IH [OF this, unfolded l2 d2]
    obtain st' new where r: "cleanup_loop now rest st2 = Inr st'"
      "file_lifetime st' = file_lifetime st"
      "files st' = dropWhile (expired now (file_lifetime st)) rest"
      "disk st' = disk st - {path} - snd ` set (takeWhile (expired now (file_lifetime st)) rest)"
      "unlinked st' = unlinked st2 @ new"
      "subseq new (map snd (takeWhile (expired now (file_lifetime st)) rest))"
      by blast
    have ex: "expired now (file_lifetime st) e" using True e by (simp add: expired_def)
    have u2: "\<exists>pre. unlinked st2 = unlinked st @ pre \<and> subseq pre [path]"
      by (simp add: st2_def st1_def)
    then obtain pre where pre: "unlinked st2 = unlinked st @ pre" "subseq pre [path]" by blast
    have "subseq (pre @ new) ([path] @ map snd (takeWhile (expired now (file_lifetime st)) rest))"
      using pre(2) r(6) by (rule list_emb_append_mono)
    then have sub: "subseq (pre @ new) (map snd (takeWhile (expired now (file_lifetime st)) (e # rest)))"
      using ex e by simp
    have "disk st' = disk st - snd ` set (takeWhile (expired now (file_lifetime st)) (e # rest))"
      using r(4) ex e by auto
    then show ?thesis using step r ex pre sub by simp
  qed
qed


lemma cleanup_result:
  "\<exists>st' new. cleanup now st = Inr st'
     \<and> file_lifetime st' = file_lifetime st
     \<and> files st' = dropWhile (expired now (file_lifetime st)) (files st)
     \<and> disk st' = disk st - snd ` set (takeWhile (expired now (file_lifetime st)) (files st))
     \<and> unlinked st' = unlinked st @ new
     \<and> subseq new (map snd (takeWhile (expired now (file_lifetime st)) (files st)))"
  unfolding cleanup_def by (rule cleanup_loop_result) simp

lemma add_result:
  "\<exists>st' new. add now stamp path st = Inr st'
     \<and> file_lifetime st' = file_lifetime st
     \<and> files st' = dropWhile (expired now (file_lifetime st)) (files st) @ [(stamp, path)]
     \<and> disk st' = disk st - snd ` set (takeWhile (expired now (file_lifetime st)) (files st))
     \<and> unlinked st' = unlinked st @ new
     \<and> subseq new (map snd (takeWhile (expired now (file_lifetime st)) (files st)))"
proof -
  obtain st1 new where c: "cleanup now st = Inr st1"
    "file_lifetime st1 = file_lifetime st"
    "files st1 = dropWhile (expired now (file_lifetime st)) (files st)"
    "disk st1 = disk st - snd ` set (takeWhile (expired now (file_lifetime st)) (files st))"
    "unlinked st1 = unlinked st @ new"
    "subseq new (map snd (takeWhile (expired now (file_lifetime st)) (files st)))"
    using cleanup_result [of now st] by blast
  then show ?thesis by (simp add: add_def)
qed

lemma expired_mono: "expired now lifetime e \<Longrightarrow> fst e' \<le> fst e \<Longrightarrow> expired now lifetime e'"
  by (simp add: expired_def)

lemma sorted_takeWhile_expired:
  "sorted (map fst xs) \<Longrightarrow> takeWhile (expired now lifetime) xs = filter (expired now lifetime) xs"
proof (induction xs)
  case Nil
  then show ?case by simp
next
  case (Cons x xs)
  show ?case
  proof (cases "expired now lifetime x")
    case True
    then show ?thesis using Cons by simp
  next
    case False
    have "\<not> expired now lifetime y" if "y \<in> set xs" for y
      using that False Cons.prems expired_mono [of now lifetime y x] by auto
    then have "filter (expired now lifetime) xs = []" by (simp add: filter_empty_conv)
    then show ?thesis using False by simp
  qed
qed

lemma sorted_dropWhile_expired:
  "sorted (map fst xs) \<Longrightarrow>
   dropWhile (expired now lifetime) xs = filter (\<lambda>e. \<not> expired now lifetime e) xs"
proof (induction xs)
  case Nil
  then show ?case by simp
next
  case (Cons x xs)
  show ?case
  proof (cases "expired now lifetime x")
    case True
    then show ?thesis using Cons by simp
  next
    case False
    have "\<not> expired now lifetime y" if "y \<in> set xs" for y
      using that False Cons.prems expired_mono [of now lifetime y x] by auto
    then have "filter (\<lambda>e. \<not> expired now lifetime e) xs = xs" by (simp add: filter_id_conv)
    then show ?thesis using False by simp
  qed
qed

lemma fc_run_append:
  "fc_run (evs @ evs') st = (case fc_run evs st of Inl e \<Rightarrow> Inl e | Inr st' \<Rightarrow> fc_run evs' st')"
  by (induction evs arbitrary: st) (simp_all split: sum.splits)

lemma registered_append: "registered (evs @ evs') = registered evs @ registered evs'"
  by (induction evs rule: registered.induct) simp_all

lemma fc_step_total: "\<exists>st'. fc_step ev st = Inr st'"
  using add_result by (cases ev) (simp_all, blast)

lemma fc_run_total: "\<exists>st'. fc_run evs st = Inr st'"
proof (induction evs arbitrary: st)
  case Nil
  then show ?case by simp
next
  case (Cons ev evs)
  obtain st1 where "fc_step ev st = Inr st1" using fc_step_total by blast
  then show ?case using Cons.IH [of st1] by simp
qed

lemma fc_step_lifetime: "fc_step ev st = Inr st' \<Longrightarrow> file_lifetime st' = file_lifetime st"
proof (cases ev)
  case (Add now stamp path)
  assume "fc_step ev st = Inr st'"
  then show ?thesis using Add add_result [of now stamp path st] by auto
qed auto

lemma fc_run_lifetime: "fc_run evs st = Inr st' \<Longrightarrow> file_lifetime st' = file_lifetime st"
proof (induction evs arbitrary: st)
  case Nil
  then show ?case by simp
next
  case (Cons ev evs)
  obtain st1 where s: "fc_step ev st = Inr st1" using fc_step_total by blast
  then show ?case using Cons fc_step_lifetime [OF s] by simp
qed

subsection \<open>Invariants of a run\<close>

lemma clock_ok_append:
  "clock_ok t (evs @ evs') = (clock_ok t evs \<and> clock_ok (last_clock t evs) evs')"
  by (induction t evs rule: clock_ok.induct) simp_all

lemma sorted_fst_dropWhile: "sorted (map fst xs) \<Longrightarrow> sorted (map fst (dropWhile P xs))"
  by (induction xs) auto

lemma add_sorted:
  assumes srt: "sorted (map fst (files st))" and bound: "\<forall>e \<in> set (files st). fst e \<le> t"
    and clock: "t \<le> now" "now \<le> stamp" and res: "add now stamp path st = Inr st'"
  shows "sorted (map fst (files st')) \<and> (\<forall>e \<in> set (files st'). fst e \<le> stamp)"
proof -
  let ?keep = "dropWhile (expired now (file_lifetime st)) (files st)"
  have f: "files st' = ?keep @ [(stamp, path)]"
    using add_result [of now stamp path st] res by auto
  have "sorted (map fst ?keep)" using srt by (rule sorted_fst_dropWhile)
  moreover have "\<forall>e \<in> set ?keep. fst e \<le> stamp"
    using bound clock set_dropWhileD [of _ "expired now (file_lifetime st)" "files st"] by fastforce
  ultimately show ?thesis by (auto simp: f sorted_append)
qed

lemma fc_run_sorted:
  "sorted (map fst (files st)) \<Longrightarrow> \<forall>e \<in> set (files st). fst e \<le> t \<Longrightarrow> clock_ok t evs \<Longrightarrow>
   fc_run evs st = Inr st' \<Longrightarrow>
   sorted (map fst (files st')) \<and> (\<forall>e \<in> set (files st'). fst e \<le> last_clock t evs)"
proof (induction t evs arbitrary: st rule: clock_ok.induct)
  case (1 t)
  then show ?case by simp
next
  case (2 t now stamp path evs)
  obtain st1 where s: "add now stamp path st = Inr st1" using add_result by blast
  have "sorted (map fst (files st1)) \<and> (\<forall>e \<in> set (files st1). fst e \<le> stamp)"
    using add_sorted [OF "2.prems"(1,2) _ _ s] "2.prems"(3) by simp
  then show ?case using "2.IH" [of st1] "2.prems" s by simp
next
  case (3 t path evs)
  then show ?case using "3.IH" [of "st\<lparr>disk := insert path (disk st)\<rparr>"] by simp
next
  case (4 t path evs)
  then show ?case using "4.IH" [of "st\<lparr>disk := disk st - {path}\<rparr>"] by simp
qed

lemma fc_run_history:
  "H = removed @ files st \<Longrightarrow> subseq (unlinked st) (map snd removed) \<Longrightarrow>
   fc_run evs st = Inr st' \<Longrightarrow>
   \<exists>removed'. H @ registered evs = removed' @ files st'
      \<and> subseq (unlinked st') (map snd removed')"
proof (induction evs arbitrary: st H removed rule: registered.induct)
  case 1
  then show ?case by auto
next
  case (2 now stamp path evs)
  let ?P = "expired now (file_lifetime st)"
  obtain st1 new where s: "add now stamp path st = Inr st1"
    "files st1 = dropWhile ?P (files st) @ [(stamp, path)]"
    "unlinked st1 = unlinked st @ new"
    "subseq new (map snd (takeWhile ?P (files st)))"
    using add_result [of now stamp path st] by blast
  have h: "H @ [(stamp, path)] = (removed @ takeWhile ?P (files st)) @ files st1"
    using "2.prems"(1) s(2) by simp
  have u: "subseq (unlinked st1) (map snd (removed @ takeWhile ?P (files st)))"
    using list_emb_append_mono [OF "2.prems"(2) s(4)] s(3) by simp
  have "fc_run evs st1 = Inr st'" using "2.prems"(3) s(1) by simp
  from "2.IH" [OF h u this] show ?case by simp
next
  case (3 path evs)
  then show ?case
    using "3.IH" [of H removed "st\<lparr>disk := insert path (disk st)\<rparr>"] by simp
next
  case (4 path evs)
  then show ?case
    using "4.IH" [of H removed "st\<lparr>disk := disk st - {path}\<rparr>"] by simp
qed

lemma fc_init_fields:
  "file_lifetime (fc_init lifetime d) = lifetime" "files (fc_init lifetime d) = []"
  "disk (fc_init lifetime d) = d" "unlinked (fc_init lifetime d) = []"
  by (simp_all add: fc_init_def)

lemma fc_reach_sorted:
  assumes "clock_ok t0 evs" and "fc_run evs (fc_init lifetime d) = Inr st"
  shows "sorted (map fst (files st))" and "\<forall>e \<in> set (files st). fst e \<le> last_clock t0 evs"
    and "file_lifetime st = lifetime"
  using fc_run_sorted [of "fc_init lifetime d" t0 evs st] fc_run_lifetime [OF assms(2)] assms
  by (simp_all add: fc_init_fields)

lemma fc_example_run:
  "fc_run [Create ''a'', Add 0 0 ''a'', Add 3000 3000 ''a''] (fc_init 3600 {})
   = Inr \<lparr>file_lifetime = 3600, files = [(0, ''a''), (3000, ''a'')], disk = {''a''},
          unlinked = []\<rparr>"
  by (simp add: fc_init_def add_def cleanup_def)

text \<open>
  C10. In every state a run reaches from the empty registry, with a clock that does not
  run backwards, \<open>files\<close> is sorted by timestamp. Therefore a sweep at any reading \<open>now\<close>
  returns normally, removes a prefix of \<open>files\<close>, and that prefix is exactly the list of the
  expired entries: what stays is exactly the list of the entries that have not expired,
  and the paths taken off the disk are exactly those of the expired entries. \<open>add\<close> is the
  sweep followed by appending the new entry.
\<close>

theorem fc_files_sorted_sweep_exact:
  assumes clock: "clock_ok t0 evs" and run: "fc_run evs (fc_init lifetime d) = Inr st"
  shows "sorted (map fst (files st))
    \<and> (\<forall>now. \<exists>st'. cleanup now st = Inr st'
          \<and> files st = filter (expired now lifetime) (files st) @ files st'
          \<and> files st' = filter (\<lambda>e. \<not> expired now lifetime e) (files st)
          \<and> disk st' = disk st - snd ` {e \<in> set (files st). expired now lifetime e})
    \<and> (\<forall>now stamp path. \<exists>st'. add now stamp path st = Inr st'
          \<and> files st' = filter (\<lambda>e. \<not> expired now lifetime e) (files st) @ [(stamp, path)])"
proof -
  note r = fc_reach_sorted [OF clock run]
  have tw: "takeWhile (expired now lifetime) (files st) = filter (expired now lifetime) (files st)"
    for now using r(1) by (rule sorted_takeWhile_expired)
  have dw: "dropWhile (expired now lifetime) (files st)
            = filter (\<lambda>e. \<not> expired now lifetime e) (files st)"
    for now using r(1) by (rule sorted_dropWhile_expired)
  have sweep: "\<exists>st'. cleanup now st = Inr st'
          \<and> files st = filter (expired now lifetime) (files st) @ files st'
          \<and> files st' = filter (\<lambda>e. \<not> expired now lifetime e) (files st)
          \<and> disk st' = disk st - snd ` {e \<in> set (files st). expired now lifetime e}" for now
  proof -
    obtain st' where c: "cleanup now st = Inr st'"
      "files st' = dropWhile (expired now lifetime) (files st)"
      "disk st' = disk st - snd ` set (takeWhile (expired now lifetime) (files st))"
      using cleanup_result [of now st] r(3) by auto
    have "files st = takeWhile (expired now lifetime) (files st) @ files st'"
      by (simp add: c(2))
    then have "files st = filter (expired now lifetime) (files st) @ files st'"
      by (simp only: tw)
    moreover have "set (takeWhile (expired now lifetime) (files st))
                   = {e \<in> set (files st). expired now lifetime e}"
      by (simp add: tw)
    ultimately show ?thesis using c dw by auto
  qed
  have addr: "\<exists>st'. add now stamp path st = Inr st'
          \<and> files st' = filter (\<lambda>e. \<not> expired now lifetime e) (files st) @ [(stamp, path)]"
    for now stamp path
    using add_result [of now stamp path st] r(3) dw by auto
  show ?thesis using r(1) sweep addr by blast
qed

theorem fc_files_sorted_witness:
  "clock_ok 0 [Create ''a'', Add 0 0 ''a'', Add 3000 3000 ''a'']
   \<and> fc_run [Create ''a'', Add 0 0 ''a'', Add 3000 3000 ''a''] (fc_init 3600 {})
     = Inr \<lparr>file_lifetime = 3600, files = [(0, ''a''), (3000, ''a'')], disk = {''a''},
            unlinked = []\<rparr>
   \<and> sorted (map fst [(0::real, ''a''), (3000, ''a'')])"
proof -
  have c: "clock_ok 0 [Create ''a'', Add 0 0 ''a'', Add 3000 3000 ''a'']" by simp
  show ?thesis
    using fc_files_sorted_sweep_exact [OF c fc_example_run] c fc_example_run by simp
qed

text \<open>
  C2 (as amended). Take any run from the empty registry with a constant lifetime and a clock
  that does not run backwards, followed by a call \<open>add\<close> whose sweep reads \<open>now\<close>. The
  call returns normally. An entry with \<open>now - T \<le> lifetime\<close> stays in the registry, and its
  file stays on the disk provided no entry with the same path has expired. An entry with
  \<open>now - T > lifetime\<close> is removed in this call and its file does not exist afterwards.
  The paths taken off the disk are exactly the paths of the expired entries. No entry is
  removed twice: the registry is always what is left of the list of registered entries
  after a prefix has been removed, and the \<open>unlink\<close> calls made so far are a subsequence
  of the paths of that prefix.
\<close>

theorem fc_add_removes_exactly_expired:
  assumes clock: "clock_ok t0 (evs @ [Add now stamp path])"
    and run: "fc_run evs (fc_init lifetime d) = Inr st"
  shows "\<exists>st'. fc_run (evs @ [Add now stamp path]) (fc_init lifetime d) = Inr st'
     \<and> add now stamp path st = Inr st'
     \<and> files st' = filter (\<lambda>e. \<not> expired now lifetime e) (files st) @ [(stamp, path)]
     \<and> disk st' = disk st - snd ` {e \<in> set (files st). expired now lifetime e}
     \<and> (\<forall>e \<in> set (files st). now - fst e \<le> lifetime \<longrightarrow> e \<in> set (files st'))
     \<and> (\<forall>e \<in> set (files st). now - fst e \<le> lifetime \<and> snd e \<in> disk st
            \<and> (\<forall>e' \<in> set (files st). snd e' = snd e \<longrightarrow> now - fst e' \<le> lifetime)
          \<longrightarrow> snd e \<in> disk st')
     \<and> (\<forall>e \<in> set (files st). now - fst e > lifetime
          \<longrightarrow> e \<notin> set (butlast (files st')) \<and> snd e \<notin> disk st')
     \<and> (\<exists>removed. registered (evs @ [Add now stamp path]) = removed @ files st'
            \<and> subseq (unlinked st') (map snd removed))"
proof -
  have c0: "clock_ok t0 evs" using clock by (simp add: clock_ok_append)
  note r = fc_reach_sorted [OF c0 run]
  have tw: "takeWhile (expired now lifetime) (files st) = filter (expired now lifetime) (files st)"
    using r(1) by (rule sorted_takeWhile_expired)
  have dw: "dropWhile (expired now lifetime) (files st)
            = filter (\<lambda>e. \<not> expired now lifetime e) (files st)"
    using r(1) by (rule sorted_dropWhile_expired)
  obtain st' where a: "add now stamp path st = Inr st'"
    "files st' = dropWhile (expired now lifetime) (files st) @ [(stamp, path)]"
    "disk st' = disk st - snd ` set (takeWhile (expired now lifetime) (files st))"
    using add_result [of now stamp path st] r(3) by auto
  have full: "fc_run (evs @ [Add now stamp path]) (fc_init lifetime d) = Inr st'"
    using run a(1) by (simp add: fc_run_append)
  have f: "files st' = filter (\<lambda>e. \<not> expired now lifetime e) (files st) @ [(stamp, path)]"
    using a(2) dw by simp
  have dk: "disk st' = disk st - snd ` {e \<in> set (files st). expired now lifetime e}"
    using a(3) tw by simp
  have keep: "\<forall>e \<in> set (files st). now - fst e \<le> lifetime \<longrightarrow> e \<in> set (files st')"
    by (auto simp: f expired_def)
  have safe: "\<forall>e \<in> set (files st). now - fst e \<le> lifetime \<and> snd e \<in> disk st
            \<and> (\<forall>e' \<in> set (files st). snd e' = snd e \<longrightarrow> now - fst e' \<le> lifetime)
          \<longrightarrow> snd e \<in> disk st'"
    by (auto simp: dk expired_def)
  have gone: "\<forall>e \<in> set (files st). now - fst e > lifetime
          \<longrightarrow> e \<notin> set (butlast (files st')) \<and> snd e \<notin> disk st'"
    by (auto simp: f dk expired_def)
  have hist: "\<exists>removed. registered (evs @ [Add now stamp path]) = removed @ files st'
            \<and> subseq (unlinked st') (map snd removed)"
    using fc_run_history [of "[]" "[]" "fc_init lifetime d" "evs @ [Add now stamp path]" st'] full
    by (simp add: fc_init_fields)
  show ?thesis using full a(1) f dk keep safe gone hist by blast
qed

theorem fc_add_removes_witness:
  "clock_ok 0 ([Create ''a'', Add 0 0 ''a'', Add 3000 3000 ''a''] @ [Add 3601 3601 ''b''])
   \<and> fc_run [Create ''a'', Add 0 0 ''a'', Add 3000 3000 ''a''] (fc_init 3600 {})
     = Inr \<lparr>file_lifetime = 3600, files = [(0, ''a''), (3000, ''a'')], disk = {''a''},
            unlinked = []\<rparr>
   \<and> fc_run ([Create ''a'', Add 0 0 ''a'', Add 3000 3000 ''a''] @ [Add 3601 3601 ''b''])
        (fc_init 3600 {})
     = Inr \<lparr>file_lifetime = 3600, files = [(3000, ''a''), (3601, ''b'')], disk = {},
            unlinked = [''a'']\<rparr>"
proof -
  have c: "clock_ok 0 ([Create ''a'', Add 0 0 ''a'', Add 3000 3000 ''a''] @ [Add 3601 3601 ''b''])"
    by simp
  have "add 3601 3601 ''b'' \<lparr>file_lifetime = 3600, files = [(0, ''a''), (3000, ''a'')],
        disk = {''a''}, unlinked = []\<rparr>
     = Inr \<lparr>file_lifetime = 3600, files = [(3000, ''a''), (3601, ''b'')], disk = {},
            unlinked = [''a'']\<rparr>"
    by (simp add: add_def cleanup_def)
  then show ?thesis
    using fc_add_removes_exactly_expired [OF c fc_example_run] c fc_example_run by auto
qed

text \<open>
  C2 as stated says that a file registered at \<open>T\<close> is never unlinked by a call with
  \<open>now - T \<le> lifetime\<close>. The registry keeps entries, not files: when the path \<open>a\<close> is
  registered at 0 and again at 3000, the call at 3601 unlinks \<open>a\<close> for the first entry,
  while the entry of 3000 (age 601) is still in the registry.
\<close>

theorem fc_early_unlink_counterexample:
  "fc_run [Create ''a'', Add 0 0 ''a'', Add 3000 3000 ''a''] (fc_init 3600 {})
     = Inr \<lparr>file_lifetime = 3600, files = [(0, ''a''), (3000, ''a'')], disk = {''a''},
            unlinked = []\<rparr>
   \<and> add 3601 3601 ''b'' \<lparr>file_lifetime = 3600, files = [(0, ''a''), (3000, ''a'')],
        disk = {''a''}, unlinked = []\<rparr>
     = Inr \<lparr>file_lifetime = 3600, files = [(3000, ''a''), (3601, ''b'')], disk = {},
            unlinked = [''a'']\<rparr>
   \<and> (3601::real) - 3000 \<le> 3600"
  by (simp add: fc_init_def add_def cleanup_def)

section \<open>Preprocessing of the continuation sample in \<open>_do_predictions\<close>\<close>

text \<open>
  The two generator pages pass the constant strings \<open>music\<close> and \<open>audio\<close> as \<open>gen_type\<close>;
  \<open>_do_predictions\<close> and \<open>predict_full\<close> have a branch for each and no other.
\<close>

datatype gen_kind = Music | Audio

definition gen_name :: "gen_kind \<Rightarrow> string" where
  "gen_name g = (case g of Music \<Rightarrow> ''music'' | Audio \<Rightarrow> ''audio'')"

















subsection \<open>The split of a long sample\<close>





















section \<open>Strings in the metadata record\<close>

subsection \<open>\<open>str\<close> of a list of strings\<close>

text \<open>
  \<open>str(raw_texts)\<close> prints the list with the \<open>repr\<close> of each string. \<open>repr\<close> encloses the
  string in single quotes, or in double quotes when it contains a single quote and no
  double quote; it escapes the enclosing quote, the backslash and every character that is
  not printable.
\<close>

definition hex_digit :: "nat \<Rightarrow> char" where
  "hex_digit d = (if d < 10 then char_of (48 + d) else char_of (87 + d))"

definition hex2 :: "char \<Rightarrow> string" where
  "hex2 c = [hex_digit ((of_char c :: nat) div 16), hex_digit ((of_char c :: nat) mod 16)]"

definition printable :: "char \<Rightarrow> bool" where
  "printable c = (let n = (of_char c :: nat) in (32 \<le> n \<and> n < 127) \<or> (161 \<le> n \<and> n \<noteq> 173))"

definition repr_char :: "char \<Rightarrow> char \<Rightarrow> string" where
  "repr_char q c =
     (if c = q \<or> c = CHR 0x5C then [CHR 0x5C, c]
      else if c = CHR 0x09 then [CHR 0x5C, CHR ''t'']
      else if c = CHR 0x0A then [CHR 0x5C, CHR ''n'']
      else if c = CHR 0x0D then [CHR 0x5C, CHR ''r'']
      else if printable c then [c]
      else [CHR 0x5C, CHR ''x''] @ hex2 c)"

definition py_repr :: "string \<Rightarrow> string" where
  "py_repr s =
     (let q = (if CHR 0x27 \<in> set s \<and> CHR 0x22 \<notin> set s then CHR 0x22 else CHR 0x27)
      in q # concat (map (repr_char q) s) @ [q])"

fun join :: "string \<Rightarrow> string list \<Rightarrow> string" where
  "join sep [] = []"
| "join sep [x] = x"
| "join sep (x # y # ys) = x @ sep @ join sep (y # ys)"

definition str_list :: "string list \<Rightarrow> string" where
  "str_list xs = ''['' @ join '', '' (map py_repr xs) @ '']''"

subsection \<open>\<open>re.findall(r"'(.*?)'", s)\<close>\<close>

text \<open>
  The matches are found from left to right: a match starts at a single quote and ends at
  the next one, and the dot does not match a newline, so a newline before the closing
  quote makes the attempt fail and the search goes on behind the opening quote. The first
  argument is the group collected since the opening quote, if one is open.
\<close>

fun scan_quoted :: "string option \<Rightarrow> string \<Rightarrow> string list" where
  "scan_quoted grp [] = []"
| "scan_quoted None (c # cs) =
     (if c = CHR 0x27 then scan_quoted (Some []) cs else scan_quoted None cs)"
| "scan_quoted (Some g) (c # cs) =
     (if c = CHR 0x27 then g # scan_quoted None cs
      else if c = CHR 0x0A then scan_quoted None cs
      else scan_quoted (Some (g @ [c])) cs)"

definition findall_quoted :: "string \<Rightarrow> string list" where
  "findall_quoted s = scan_quoted None s"

subsection \<open>\<open>strip\<close>, and the loop that collapses repeated texts\<close>

definition isspace :: "char \<Rightarrow> bool" where
  "isspace c = (let n = (of_char c :: nat) in (9 \<le> n \<and> n \<le> 13) \<or> (28 \<le> n \<and> n \<le> 32) \<or> n = 133 \<or> n = 160)"

definition py_strip :: "string \<Rightarrow> string" where
  "py_strip s = rev (dropWhile isspace (rev (dropWhile isspace s)))"

text \<open>
  The loop over the matches. \<open>prev\<close> is the match before \<open>elem\<close> (\<open>s[i-1]\<close>), \<open>None\<close> at
  \<open>i = 0\<close>. \<open>repeat[-1] += 1\<close> on an empty list would raise \<open>IndexError\<close>.
\<close>

fun collapse_texts ::
  "string option \<Rightarrow> string list \<Rightarrow> string list \<times> int list \<Rightarrow> py_error + string list \<times> int list" where
  "collapse_texts prev [] st = Inr st"
| "collapse_texts prev (elem # rest) (text, repeat) =
     (if py_strip elem \<noteq> [] then
        (if prev = None \<or> Some elem \<noteq> prev
         then collapse_texts (Some elem) rest (text @ [elem], repeat @ [1])
         else (case repeat of
                 [] \<Rightarrow> Inl IndexError
               | _ # _ \<Rightarrow> collapse_texts (Some elem) rest
                            (text, butlast repeat @ [last repeat + 1])))
      else collapse_texts (Some elem) rest (text, repeat))"

text \<open>
  The branch \<open>'texts' in data\<close>: the matches, the collapsed lists padded to ten entries,
  and the number of non-empty texts.
\<close>

definition parse_texts :: "string \<Rightarrow> py_error + string list \<times> int list \<times> nat" where
  "parse_texts s =
     (case collapse_texts None (findall_quoted s) ([], []) of
        Inl e \<Rightarrow> Inl e
      | Inr (text, repeat) \<Rightarrow>
          (let text = text @ replicate (10 - length text) [];
               repeat = repeat @ replicate (10 - length repeat) 1;
               unique_prompts = length (filter (\<lambda>t. t \<noteq> []) text)
           in Inr (text, repeat, unique_prompts)))"

subsection \<open>\<open>int(s)\<close> on a string\<close>

text \<open>
  \<open>int\<close> strips white space, takes an optional sign and then decimal digits, which single
  underscores may separate; anything else raises \<open>ValueError\<close>.
\<close>

definition is_digit :: "char \<Rightarrow> bool" where
  "is_digit c = (48 \<le> (of_char c :: nat) \<and> (of_char c :: nat) \<le> 57)"

fun digits_ok :: "bool \<Rightarrow> string \<Rightarrow> bool" where
  "digits_ok after_digit [] = after_digit"
| "digits_ok after_digit (c # cs) =
     (if is_digit c then digits_ok True cs
      else if c = CHR ''_'' \<and> after_digit then digits_ok False cs
      else False)"

definition digits_value :: "string \<Rightarrow> nat" where
  "digits_value ds = fold (\<lambda>c n. 10 * n + ((of_char c :: nat) - 48)) (filter is_digit ds) 0"

definition int_of_str :: "string \<Rightarrow> py_error + int" where
  "int_of_str s =
     (let t = py_strip s;
          neg = (t \<noteq> [] \<and> hd t = CHR ''-'');
          ds = (if t \<noteq> [] \<and> (hd t = CHR ''-'' \<or> hd t = CHR ''+'') then tl t else t)
      in if digits_ok False ds
         then Inr (if neg then - int (digits_value ds) else int (digits_value ds))
         else Inl ValueError)"

section \<open>Reading the metadata back: \<open>info_to_params\<close>\<close>

text \<open>
  The persisted record is the JSON object written by \<open>add_tags\<close>, a dictionary from field
  names to strings; it is modelled as the dictionary itself. \<open>float\<close> on a string and the
  listing of the \<open>models\<close> directory (\<open>get_available_folders\<close>, which raises when the directory
  is missing) come from outside the repository and are parameters: \<open>float_of\<close> and
  \<open>folders\<close>.
\<close>

type_synonym metadata = "string \<rightharpoonup> string"

record ui_params =
  out_decoder :: string
  out_struc_prompt :: bool
  out_global_prompt :: string
  out_bpm :: int
  out_key :: string
  out_scale :: string
  out_model :: string
  out_custom_model :: "string option"
  out_unique_prompts :: nat
  out_text :: "string list"
  out_repeat :: "int list"
  out_audio_mode :: string
  out_duration :: int
  out_topk :: real
  out_topp :: real
  out_temperature :: real
  out_cfg_coef :: real
  out_seed :: int
  out_overlap :: int
  out_channel :: string
  out_sr_select :: string

text \<open>The tuple returned when there is no file, no supported extension or no tag.\<close>

definition default_params :: ui_params where
  "default_params =
     \<lparr>out_decoder = ''Default'', out_struc_prompt = False, out_global_prompt = [],
      out_bpm = 120, out_key = ''C'', out_scale = ''Major'', out_model = ''large'',
      out_custom_model = None, out_unique_prompts = 1,
      out_text = replicate 10 [], out_repeat = replicate 10 1,
      out_audio_mode = ''sample'', out_duration = 10, out_topk = 250, out_topp = 0,
      out_temperature = 1.0, out_cfg_coef = 5.0, out_seed = - 1, out_overlap = 12,
      out_channel = ''stereo'', out_sr_select = ''48000''\<rparr>"

definition bind_err :: "py_error + 'a \<Rightarrow> ('a \<Rightarrow> py_error + 'b) \<Rightarrow> py_error + 'b" where
  "bind_err x f = (case x of Inl e \<Rightarrow> Inl e | Inr v \<Rightarrow> f v)"

text \<open>One definition for each field that can raise, in the order of the source.\<close>

definition decode_bpm :: "metadata \<Rightarrow> py_error + int" where
  "decode_bpm data =
     (case data ''bpm'' of
        None \<Rightarrow> Inr 120
      | Some v \<Rightarrow> if v = ''none'' then Inr 120 else int_of_str v)"

definition decode_custom_model :: "string list option \<Rightarrow> metadata \<Rightarrow> py_error + string option" where
  "decode_custom_model folders data =
     (case data ''custom_model'' of
        None \<Rightarrow> Inr None
      | Some v \<Rightarrow>
          (case folders of
             None \<Rightarrow> Inl OSError
           | Some fs \<Rightarrow> Inr (if v \<in> set fs then Some v else None)))"

definition decode_texts :: "metadata \<Rightarrow> py_error + string list \<times> int list \<times> nat" where
  "decode_texts data =
     (case data ''texts'' of
        None \<Rightarrow> Inr (replicate 10 [], replicate 10 1, 1)
      | Some s \<Rightarrow> parse_texts s)"

definition decode_int :: "metadata \<Rightarrow> string \<Rightarrow> int \<Rightarrow> py_error + int" where
  "decode_int data k dflt = (case data k of None \<Rightarrow> Inr dflt | Some v \<Rightarrow> int_of_str v)"

definition decode_float ::
  "(string \<Rightarrow> real option) \<Rightarrow> metadata \<Rightarrow> string \<Rightarrow> real \<Rightarrow> py_error + real" where
  "decode_float float_of data k dflt =
     (case data k of
        None \<Rightarrow> Inr dflt
      | Some v \<Rightarrow> (case float_of v of None \<Rightarrow> Inl ValueError | Some x \<Rightarrow> Inr x))"

definition decode_str :: "metadata \<Rightarrow> string \<Rightarrow> string \<Rightarrow> string" where
  "decode_str data k dflt = (case data k of None \<Rightarrow> dflt | Some v \<Rightarrow> v)"

text \<open>A field stored as \<open>none\<close> reads as its default.\<close>

definition decode_str_none :: "metadata \<Rightarrow> string \<Rightarrow> string \<Rightarrow> string" where
  "decode_str_none data k dflt =
     (case data k of None \<Rightarrow> dflt | Some v \<Rightarrow> if v = ''none'' then dflt else v)"

definition params_of_data ::
  "string list option \<Rightarrow> (string \<Rightarrow> real option) \<Rightarrow> metadata \<Rightarrow> py_error + ui_params" where
  "params_of_data folders float_of data =
     bind_err (decode_bpm data) (\<lambda>bpm.
     bind_err (decode_custom_model folders data) (\<lambda>custom_model.
     bind_err (decode_texts data) (\<lambda>texts.
     bind_err (decode_int data ''duration'' 10) (\<lambda>duration.
     bind_err (decode_float float_of data ''topk'' 250) (\<lambda>topk.
     bind_err (decode_float float_of data ''topp'' 0) (\<lambda>topp.
     bind_err (decode_float float_of data ''temperature'' 1.0) (\<lambda>temperature.
     bind_err (decode_float float_of data ''cfg_coef'' 5.0) (\<lambda>cfg_coef.
     bind_err (decode_int data ''seed'' (- 1)) (\<lambda>seed.
     bind_err (decode_int data ''overlap'' 12) (\<lambda>overlap.
     Inr \<lparr>out_decoder = decode_str data ''decoder'' ''Default'',
          out_struc_prompt = (case data ''bpm'' of None \<Rightarrow> False | Some v \<Rightarrow> v \<noteq> ''none''),
          out_global_prompt = decode_str data ''global_prompt'' [],
          out_bpm = bpm,
          out_key = decode_str_none data ''key'' ''C'',
          out_scale = decode_str_none data ''scale'' ''Major'',
          out_model = decode_str data ''model'' ''large'',
          out_custom_model = custom_model,
          out_unique_prompts = snd (snd texts),
          out_text = take 10 (fst texts),
          out_repeat = take 10 (fst (snd texts)),
          out_audio_mode = decode_str_none data ''audio_mode'' ''sample'',
          out_duration = duration, out_topk = topk, out_topp = topp,
          out_temperature = temperature, out_cfg_coef = cfg_coef,
          out_seed = seed, out_overlap = overlap,
          out_channel = decode_str data ''channel'' ''stereo'',
          out_sr_select = decode_str data ''sr_select'' ''48000''\<rparr>))))))))))"

text \<open>
  The uploaded file: its name, the parsed \<open>COMMENT\<close> tag of an audio or video file (if it
  has one) and the parsed content of a JSON file.
\<close>

datatype upload = Upload string "metadata option" metadata

fun info_to_params ::
  "string list option \<Rightarrow> (string \<Rightarrow> real option) \<Rightarrow> upload option \<Rightarrow> py_error + ui_params" where
  "info_to_params folders float_of None = Inr default_params"
| "info_to_params folders float_of (Some (Upload name comment json)) =
     (if suffix ''.wav'' name \<or> suffix ''.mp4'' name \<or> suffix ''.json'' name then
        (if \<not> suffix ''.json'' name then
           (case comment of
              None \<Rightarrow> Inr default_params
            | Some data \<Rightarrow> params_of_data folders float_of data)
         else params_of_data folders float_of json)
      else Inr default_params)"

subsection \<open>What decoding yields\<close>

lemma collapse_texts_total:
  "(\<forall>e. prev = Some e \<and> py_strip e \<noteq> [] \<longrightarrow> rp \<noteq> []) \<Longrightarrow>
   \<exists>r. collapse_texts prev xs (tx, rp) = Inr r"
proof (induction xs arbitrary: prev tx rp)
  case Nil
  then show ?case by simp
next
  case (Cons elem rest)
  show ?case
  proof (cases "py_strip elem \<noteq> []")
    case False
    then show ?thesis using Cons.IH [of "Some elem" rp tx] by simp
  next
    case True
    show ?thesis
    proof (cases "prev = None \<or> Some elem \<noteq> prev")
      case new: True
      then show ?thesis using True Cons.IH [of "Some elem" "rp @ [1]" "tx @ [elem]"] by simp
    next
      case same: False
      then have "rp \<noteq> []" using True Cons.prems by auto
      then obtain r rs where r: "rp = r # rs" by (cases rp) auto
      have "\<exists>res. collapse_texts (Some elem) rest (tx, butlast rp @ [last rp + 1]) = Inr res"
        by (rule Cons.IH) simp
      then show ?thesis using True same r by auto
    qed
  qed
qed

lemma parse_texts_total: "\<exists>r. parse_texts s = Inr r"
proof -
  obtain tx rp where "collapse_texts None (findall_quoted s) ([], []) = Inr (tx, rp)"
    using collapse_texts_total [of None "[]" "findall_quoted s" "[]"] by auto
  then show ?thesis by (simp add: parse_texts_def Let_def)
qed

lemma params_of_data_Inr:
  assumes "params_of_data folders float_of data = Inr p"
  shows "\<exists>bpm cm texts dur topk topp temp cfg seed ov.
      decode_bpm data = Inr bpm \<and> decode_custom_model folders data = Inr cm
    \<and> decode_texts data = Inr texts \<and> decode_int data ''duration'' 10 = Inr dur
    \<and> decode_float float_of data ''topk'' 250 = Inr topk
    \<and> decode_float float_of data ''topp'' 0 = Inr topp
    \<and> decode_float float_of data ''temperature'' 1.0 = Inr temp
    \<and> decode_float float_of data ''cfg_coef'' 5.0 = Inr cfg
    \<and> decode_int data ''seed'' (- 1) = Inr seed
    \<and> decode_int data ''overlap'' 12 = Inr ov
    \<and> out_bpm p = bpm \<and> out_custom_model p = cm \<and> out_unique_prompts p = snd (snd texts)
    \<and> out_text p = take 10 (fst texts) \<and> out_repeat p = take 10 (fst (snd texts))
    \<and> out_duration p = dur \<and> out_topk p = topk \<and> out_topp p = topp
    \<and> out_temperature p = temp \<and> out_cfg_coef p = cfg \<and> out_seed p = seed
    \<and> out_overlap p = ov
    \<and> out_decoder p = decode_str data ''decoder'' ''Default''
    \<and> out_struc_prompt p = (case data ''bpm'' of None \<Rightarrow> False | Some v \<Rightarrow> v \<noteq> ''none'')
    \<and> out_global_prompt p = decode_str data ''global_prompt'' []
    \<and> out_key p = decode_str_none data ''key'' ''C''
    \<and> out_scale p = decode_str_none data ''scale'' ''Major''
    \<and> out_model p = decode_str data ''model'' ''large''
    \<and> out_audio_mode p = decode_str_none data ''audio_mode'' ''sample''
    \<and> out_channel p = decode_str data ''channel'' ''stereo''
    \<and> out_sr_select p = decode_str data ''sr_select'' ''48000''"
  using assms unfolding params_of_data_def bind_err_def
  by (auto split: sum.splits)

lemma params_of_data_Inl:
  assumes "params_of_data folders float_of data = Inl e"
  shows "decode_bpm data = Inl e \<or> decode_custom_model folders data = Inl e
    \<or> decode_texts data = Inl e \<or> decode_int data ''duration'' 10 = Inl e
    \<or> decode_float float_of data ''topk'' 250 = Inl e
    \<or> decode_float float_of data ''topp'' 0 = Inl e
    \<or> decode_float float_of data ''temperature'' 1.0 = Inl e
    \<or> decode_float float_of data ''cfg_coef'' 5.0 = Inl e
    \<or> decode_int data ''seed'' (- 1) = Inl e
    \<or> decode_int data ''overlap'' 12 = Inl e"
  using assms unfolding params_of_data_def bind_err_def
  by (auto split: sum.splits)

end
